theory Spec2Isabelle
  imports Main "HOL-Library.Product_Lexorder" "HOL-Library.Sublist"
begin

section \<open>The feature store (api/database.py)\<close>

text \<open>
  The two tables of \<^verbatim>\<open>api/database.py\<close>. A row of \<^verbatim>\<open>features\<close> is a
  \<^verbatim>\<open>Feature\<close>, a row of \<^verbatim>\<open>step_progress\<close> a \<^verbatim>\<open>StepProgress\<close>.
  Python integers are unbounded (\<open>int\<close>); a nullable column is an \<open>option\<close>;
  a \<^verbatim>\<open>DateTime\<close> is a point of an abstract clock (\<open>nat\<close>).
  \<^verbatim>\<open>Feature.id\<close> is \<open>f_id\<close>, \<^verbatim>\<open>Feature.type\<close> is \<open>f_type\<close>,
  \<^verbatim>\<open>StepProgress.id\<close> is \<open>sp_id\<close>, \<^verbatim>\<open>StepProgress.notes\<close> is \<open>step_notes\<close>.
\<close>

type_synonym datetime = nat

record feature =
  f_id :: int
  priority :: int
  f_type :: string
  category :: string
  name :: string
  description :: string
  steps :: "string list"
  passes :: bool
  in_progress :: bool
  label :: "string option"
  assigned_agent_id :: "string option"

record step_progress =
  sp_id :: int
  feature_id :: int
  step_index :: int
  step_text :: string
  completed :: bool
  started_at :: "datetime option"
  completed_at :: "datetime option"
  step_notes :: "string option"

record database =
  features :: "feature list"
  step_progress :: "step_progress list"

text \<open>
  The structured errors of \<^verbatim>\<open>mcp_server/feature_mcp.py\<close>: each tool returns
  \<^verbatim>\<open>{"error": ...}\<close> with one of these messages.
\<close>

datatype error =
    FeatureNotFound int
      \<comment> \<open>"Feature with ID {id} not found" (NotFound)\<close>
  | NoMoreWork
      \<comment> \<open>feature_get_next: "All features are passing or assigned to other agents!" (Empty)\<close>
  | CannotSkipPassing
      \<comment> \<open>feature_skip: "Cannot skip a feature that is already passing" (Conflict)\<close>
  | AlreadyPassing int
      \<comment> \<open>feature_mark_in_progress: "Feature with ID {id} is already passing" (Conflict)\<close>
  | InProgressByAgent int string
      \<comment> \<open>feature_mark_in_progress: "... is already in-progress by agent {a}" (Conflict)\<close>
  | NoFeaturesToClaim
      \<comment> \<open>feature_claim_next: "No features available to claim." (NotAvailable)\<close>
  | AssignedToAgent string string
      \<comment> \<open>feature_release: "Feature is assigned to agent {a}, not {b}" (Forbidden)\<close>
  | MissingRequiredFields nat
      \<comment> \<open>feature_create_bulk: "Feature at index {i} missing required fields"\<close>
  | StepNotFound int int
      \<comment> \<open>"Step {step_index} for feature {feature_id} not found" (NotFound)\<close>
  | CommitOverflow
      \<comment> \<open>\<^verbatim>\<open>session.commit()\<close> raises "OverflowError: Python int too large to convert to
          SQLite INTEGER"\<close>

subsection \<open>Queries\<close>

text \<open>\<^verbatim>\<open>query.first()\<close>: the first row of a result, or \<^verbatim>\<open>None\<close>.\<close>

definition first :: "'a list \<Rightarrow> 'a option" where
  "first rows = (case rows of [] \<Rightarrow> None | r # _ \<Rightarrow> Some r)"

text \<open>\<^verbatim>\<open>session.query(Feature).filter(Feature.id == feature_id).first()\<close>\<close>

definition query_feature :: "database \<Rightarrow> int \<Rightarrow> feature option" where
  "query_feature db feature_id' = first (filter (\<lambda>f. f_id f = feature_id') (features db))"

text \<open>\<^verbatim>\<open>.order_by(Feature.priority.asc(), Feature.id.asc())\<close>\<close>

definition order_by_priority_id :: "feature list \<Rightarrow> feature list" where
  "order_by_priority_id rows = sort_key (\<lambda>f. (priority f, f_id f)) rows"

text \<open>
  \<^verbatim>\<open>session.query(Feature.priority).order_by(Feature.priority.desc()).first()\<close>:
  the largest priority of the table, \<^verbatim>\<open>None\<close> on an empty table.
\<close>

definition max_priority_result :: "database \<Rightarrow> int option" where
  "max_priority_result db =
     first (rev (sort (map priority (features db))))"

text \<open>
  \<^verbatim>\<open>session.commit()\<close> after the attributes of a loaded row were assigned:
  the row with that primary key is replaced.
\<close>

definition commit_feature :: "database \<Rightarrow> feature \<Rightarrow> database" where
  "commit_feature db f' =
     db\<lparr>features := map (\<lambda>g. if f_id g = f_id f' then f' else g) (features db)\<rparr>"

definition commit_step :: "database \<Rightarrow> step_progress \<Rightarrow> database" where
  "commit_step db s' =
     db\<lparr>step_progress := map (\<lambda>r. if sp_id r = sp_id s' then s' else r) (step_progress db)\<rparr>"

text \<open>
  The database is SQLite (\<^verbatim>\<open>get_database_url\<close>) and \<^verbatim>\<open>priority\<close> is an
  \<^verbatim>\<open>Integer\<close> column: it holds a signed 64-bit integer. A Python integer outside
  that range cannot be bound to the statement: the commit raises \<^verbatim>\<open>OverflowError\<close>
  and the transaction is not applied.
\<close>

definition sqlite_integer :: "int \<Rightarrow> bool" where
  "sqlite_integer v = (- (2 ^ 63) \<le> v \<and> v < 2 ^ 63)"

text \<open>Python truthiness of a \<^verbatim>\<open>str\<close> and of a \<^verbatim>\<open>str | None\<close>.\<close>

definition truthy :: "string \<Rightarrow> bool" where
  "truthy s = (s \<noteq> [])"

definition truthy_opt :: "string option \<Rightarrow> bool" where
  "truthy_opt v = (case v of None \<Rightarrow> False | Some s \<Rightarrow> truthy s)"

subsection \<open>The claim protocol (mcp_server/feature_mcp.py)\<close>

text \<open>
  \<^verbatim>\<open>feature_get_next(agent_id)\<close>. \<open>env_agent_id\<close> is
  \<^verbatim>\<open>os.environ.get("AGENT_ID", "")\<close>.
\<close>

definition feature_get_next :: "string \<Rightarrow> database \<Rightarrow> string \<Rightarrow> (error + feature) \<times> database" where
  "feature_get_next env_agent_id db agent_id0 =
     (let agent_id = (if \<not> truthy agent_id0 then env_agent_id else agent_id0);
          query = filter (\<lambda>f. passes f = False) (features db);
          query = (if truthy agent_id
                   then filter (\<lambda>f. assigned_agent_id f = None \<or> assigned_agent_id f = Some agent_id) query
                   else query)
      in case first (order_by_priority_id query) of
           None \<Rightarrow> (Inl NoMoreWork, db)
         | Some f \<Rightarrow>
             if truthy agent_id \<and> \<not> in_progress f
             then (let f' = f\<lparr>in_progress := True, assigned_agent_id := Some agent_id\<rparr>
                   in (Inr f', commit_feature db f'))
             else (Inr f, db))"

text \<open>\<^verbatim>\<open>feature_mark_passing(feature_id)\<close>\<close>

definition feature_mark_passing :: "database \<Rightarrow> int \<Rightarrow> (error + feature) \<times> database" where
  "feature_mark_passing db feature_id' =
     (case query_feature db feature_id' of
        None \<Rightarrow> (Inl (FeatureNotFound feature_id'), db)
      | Some f \<Rightarrow>
          (let f' = f\<lparr>passes := True, in_progress := False, assigned_agent_id := None\<rparr>
           in (Inr f', commit_feature db f')))"

text \<open>
  \<^verbatim>\<open>feature_skip(feature_id)\<close>. It returns
  \<^verbatim>\<open>{id, name, old_priority, new_priority, message}\<close>. The function has no
  \<^verbatim>\<open>except\<close> clause: when the commit raises, the exception leaves the function
  and the session is closed without the change.
\<close>

record skip_details =
  skipped_id :: int
  skipped_name :: string
  old_priority :: int
  new_priority :: int

definition feature_skip :: "database \<Rightarrow> int \<Rightarrow> (error + skip_details) \<times> database" where
  "feature_skip db feature_id' =
     (case query_feature db feature_id' of
        None \<Rightarrow> (Inl (FeatureNotFound feature_id'), db)
      | Some f \<Rightarrow>
          if passes f then (Inl CannotSkipPassing, db)
          else
            (let old = priority f;
                 new = (case max_priority_result db of Some m \<Rightarrow> m + 1 | None \<Rightarrow> 1);
                 f' = f\<lparr>priority := new, in_progress := False\<rparr>
             in if \<not> sqlite_integer new then (Inl CommitOverflow, db)
                else (Inr \<lparr>skipped_id = f_id f', skipped_name = name f',
                           old_priority = old, new_priority = new\<rparr>,
                      commit_feature db f')))"

text \<open>\<^verbatim>\<open>feature_mark_in_progress(feature_id, agent_id="")\<close>\<close>

definition feature_mark_in_progress :: "database \<Rightarrow> int \<Rightarrow> string \<Rightarrow> (error + feature) \<times> database" where
  "feature_mark_in_progress db feature_id' agent_id =
     (case query_feature db feature_id' of
        None \<Rightarrow> (Inl (FeatureNotFound feature_id'), db)
      | Some f \<Rightarrow>
          if passes f then (Inl (AlreadyPassing feature_id'), db)
          else if in_progress f \<and> truthy_opt (assigned_agent_id f) \<and> truthy agent_id
                  \<and> assigned_agent_id f \<noteq> Some agent_id
          then (Inl (InProgressByAgent feature_id' (the (assigned_agent_id f))), db)
          else
            (let f' = f\<lparr>in_progress := True\<rparr>;
                 f' = (if truthy agent_id then f'\<lparr>assigned_agent_id := Some agent_id\<rparr> else f')
             in (Inr f', commit_feature db f')))"

text \<open>\<^verbatim>\<open>feature_clear_in_progress(feature_id)\<close>\<close>

definition feature_clear_in_progress :: "database \<Rightarrow> int \<Rightarrow> (error + feature) \<times> database" where
  "feature_clear_in_progress db feature_id' =
     (case query_feature db feature_id' of
        None \<Rightarrow> (Inl (FeatureNotFound feature_id'), db)
      | Some f \<Rightarrow>
          (let f' = f\<lparr>in_progress := False, assigned_agent_id := None\<rparr>
           in (Inr f', commit_feature db f')))"

text \<open>
  \<^verbatim>\<open>feature_claim_next(agent_id)\<close>. The filter is the source's:
  not passing, and either (not in progress and assigned to nobody) or assigned to
  this agent. In SQL a comparison with \<^verbatim>\<open>NULL\<close> is not true, so
  \<^verbatim>\<open>assigned_agent_id == agent_id\<close> holds only for a non-null column.
\<close>

definition claimable :: "string \<Rightarrow> feature \<Rightarrow> bool" where
  "claimable agent_id f =
     (passes f = False \<and>
      ((in_progress f = False \<and> assigned_agent_id f = None) \<or> assigned_agent_id f = Some agent_id))"

definition feature_claim_next :: "database \<Rightarrow> string \<Rightarrow> (error + feature) \<times> database" where
  "feature_claim_next db agent_id =
     (case first (order_by_priority_id (filter (claimable agent_id) (features db))) of
        None \<Rightarrow> (Inl NoFeaturesToClaim, db)
      | Some f \<Rightarrow>
          (let f' = f\<lparr>in_progress := True, assigned_agent_id := Some agent_id\<rparr>
           in (Inr f', commit_feature db f')))"

text \<open>\<^verbatim>\<open>feature_release(feature_id, agent_id="")\<close>\<close>

definition feature_release :: "database \<Rightarrow> int \<Rightarrow> string \<Rightarrow> (error + feature) \<times> database" where
  "feature_release db feature_id' agent_id =
     (case query_feature db feature_id' of
        None \<Rightarrow> (Inl (FeatureNotFound feature_id'), db)
      | Some f \<Rightarrow>
          if truthy agent_id \<and> truthy_opt (assigned_agent_id f)
             \<and> assigned_agent_id f \<noteq> Some agent_id
          then (Inl (AssignedToAgent (the (assigned_agent_id f)) agent_id), db)
          else
            (let f' = f\<lparr>in_progress := False, assigned_agent_id := None\<rparr>
             in (Inr f', commit_feature db f')))"

text \<open>
  \<^verbatim>\<open>feature_create_bulk(features, label)\<close>. An element of \<^verbatim>\<open>features\<close> is a
  \<^verbatim>\<open>dict\<close>; a key that is absent is \<open>None\<close> here.
\<close>

record feature_data =
  fd_type :: "string option"
  fd_category :: "string option"
  fd_name :: "string option"
  fd_description :: "string option"
  fd_steps :: "string list option"

text \<open>\<^verbatim>\<open>all(key in feature_data for key in ["category", "name", "description", "steps"])\<close>\<close>

definition has_required_fields :: "feature_data \<Rightarrow> bool" where
  "has_required_fields fd =
     (fd_category fd \<noteq> None \<and> fd_name fd \<noteq> None \<and> fd_description fd \<noteq> None \<and> fd_steps fd \<noteq> None)"

text \<open>
  The loop \<^verbatim>\<open>for i, feature_data in enumerate(features)\<close>: the rows added to the
  session so far, or the error of the first element that lacks a required field. The
  columns the constructor call leaves out take their defaults
  (\<^verbatim>\<open>in_progress = False\<close>, \<^verbatim>\<open>assigned_agent_id = NULL\<close>). The primary key of
  a new row is given by the database at the commit: \<open>new_id i\<close> is the key it gives
  the \<open>i\<close>-th row added.
\<close>

fun create_rows ::
  "int \<Rightarrow> (nat \<Rightarrow> int) \<Rightarrow> string option \<Rightarrow> nat \<Rightarrow> feature_data list \<Rightarrow> error + feature list" where
  "create_rows start_priority new_id label' i [] = Inr []"
| "create_rows start_priority new_id label' i (fd # rest) =
     (if \<not> has_required_fields fd then Inl (MissingRequiredFields i)
      else
        (let feature_type = (case fd_type fd of None \<Rightarrow> ''feature'' | Some t \<Rightarrow> t);
             base_priority = start_priority + int i;
             priority' = (if feature_type = ''bug'' then base_priority - 500 else base_priority);
             db_feature = \<lparr>f_id = new_id i, priority = priority', f_type = feature_type,
                           category = the (fd_category fd), name = the (fd_name fd),
                           description = the (fd_description fd), steps = the (fd_steps fd),
                           passes = False, in_progress = False, label = label',
                           assigned_agent_id = None\<rparr>
         in case create_rows start_priority new_id label' (Suc i) rest of
              Inl e \<Rightarrow> Inl e
            | Inr rows \<Rightarrow> Inr (db_feature # rows)))"

text \<open>
  The return inside the loop leaves the session without a commit, so nothing is stored.
  When the commit raises because a priority is no 64-bit integer, the
  \<^verbatim>\<open>except Exception\<close> clause rolls back and returns \<^verbatim>\<open>{"error": str(e)}\<close>.
  Otherwise the function returns \<^verbatim>\<open>{"created": created_count, "label": label}\<close>.
\<close>

definition feature_create_bulk ::
  "(nat \<Rightarrow> int) \<Rightarrow> database \<Rightarrow> feature_data list \<Rightarrow> string option
     \<Rightarrow> (error + nat \<times> string option) \<times> database" where
  "feature_create_bulk new_id db features' label' =
     (let start_priority = (case max_priority_result db of Some m \<Rightarrow> m + 1 | None \<Rightarrow> 1)
      in case create_rows start_priority new_id label' 0 features' of
           Inl e \<Rightarrow> (Inl e, db)
         | Inr rows \<Rightarrow>
             if \<not> list_all (\<lambda>r. sqlite_integer (priority r)) rows then (Inl CommitOverflow, db)
             else (Inr (length rows, label'), db\<lparr>features := features db @ rows\<rparr>))"

subsection \<open>Step progress (mcp_server/feature_mcp.py)\<close>

text \<open>
  \<^verbatim>\<open>session.query(StepProgress).filter(StepProgress.feature_id == feature_id,
  StepProgress.step_index == step_index).first()\<close>
\<close>

definition query_step :: "database \<Rightarrow> int \<Rightarrow> int \<Rightarrow> step_progress option" where
  "query_step db feature_id' step_index' =
     first (filter (\<lambda>s. feature_id s = feature_id' \<and> step_index s = step_index') (step_progress db))"

text \<open>
  \<^verbatim>\<open>feature_step_mark_started(feature_id, step_index)\<close>. \<open>utcnow\<close> is the value of
  \<^verbatim>\<open>datetime.utcnow()\<close> at the call.
\<close>

definition feature_step_mark_started ::
  "datetime \<Rightarrow> database \<Rightarrow> int \<Rightarrow> int \<Rightarrow> (error + step_progress) \<times> database" where
  "feature_step_mark_started utcnow db feature_id' step_index' =
     (case query_step db feature_id' step_index' of
        None \<Rightarrow> (Inl (StepNotFound step_index' feature_id'), db)
      | Some step \<Rightarrow>
          (let step' = step\<lparr>started_at := Some utcnow\<rparr>
           in (Inr step', commit_step db step')))"

subsection \<open>The specification's selection rule\<close>

text \<open>
  The spec's words for \<^verbatim>\<open>nextAvailable(forOwner)\<close>: the lowest-priority (tie-break:
  lowest id) incomplete item whose owner is null or equals \<^verbatim>\<open>forOwner\<close>.
  \<open>lowest\<close> keeps the smaller of two items, priority first, then id.
\<close>

fun lowest :: "feature list \<Rightarrow> feature option" where
  "lowest [] = None"
| "lowest (f # rest) =
     (case lowest rest of
        None \<Rightarrow> Some f
      | Some g \<Rightarrow>
          if priority f < priority g \<or> (priority f = priority g \<and> f_id f \<le> f_id g)
          then Some f else Some g)"

definition available_for :: "string \<Rightarrow> feature \<Rightarrow> bool" where
  "available_for forOwner f =
     (passes f = False \<and> (assigned_agent_id f = None \<or> assigned_agent_id f = Some forOwner))"

definition nextAvailable :: "database \<Rightarrow> string \<Rightarrow> feature option" where
  "nextAvailable db forOwner = lowest (filter (available_for forOwner) (features db))"

text \<open>
  The invariant of the data model: a non-null owner implies the claimed flag.
\<close>

definition owner_implies_claimed :: "database \<Rightarrow> bool" where
  "owner_implies_claimed db =
     list_all (\<lambda>f. assigned_agent_id f = None \<or> in_progress f) (features db)"

section \<open>The line protocol (agent_communication.py)\<close>

text \<open>
  A JSON value as Python's \<^verbatim>\<open>json\<close> module gives it: \<^verbatim>\<open>None\<close>, \<^verbatim>\<open>bool\<close>,
  \<^verbatim>\<open>int\<close>, \<^verbatim>\<open>float\<close>, \<^verbatim>\<open>str\<close>, \<^verbatim>\<open>list\<close> and \<^verbatim>\<open>dict\<close> (the items
  in insertion order, the keys distinct). Floats are left abstract. A character is a
  code point below 256.
\<close>

typedecl pyfloat

datatype json =
    JNull
  | JBool bool
  | JInt int
  | JFloat pyfloat
  | JString string
  | JArray "json list"
  | JObject "(string \<times> json) list"




subsection \<open>Sending\<close>



subsection \<open>Listening\<close>















section \<open>Example data\<close>

definition example_feature :: "int \<Rightarrow> int \<Rightarrow> bool \<Rightarrow> bool \<Rightarrow> string option \<Rightarrow> feature" where
  "example_feature i p done' claimed owner =
     \<lparr>f_id = i, priority = p, f_type = ''feature'', category = ''core'', name = ''item'',
      description = ''an item'', steps = [''first step''], passes = done',
      in_progress = claimed, label = None, assigned_agent_id = owner\<rparr>"

text \<open>
  Item 1 is claimed by agent A, item 2 is free, item 3 is complete; item 4 was marked
  in progress without an agent id.
\<close>

definition example_db :: database where
  "example_db =
     \<lparr>features = [example_feature 1 1 False True (Some ''A''),
                  example_feature 2 2 False False None,
                  example_feature 3 3 True False None],
      step_progress = []\<rparr>"

definition example_db_anonymous :: database where
  "example_db_anonymous =
     \<lparr>features = [example_feature 4 0 False True None,
                  example_feature 2 2 False False None],
      step_progress = []\<rparr>"

definition example_step :: step_progress where
  "example_step =
     \<lparr>sp_id = 1, feature_id = 1, step_index = 0, step_text = ''first step'',
      completed = False, started_at = None, completed_at = None, step_notes = None\<rparr>"

definition example_db_steps :: database where
  "example_db_steps =
     \<lparr>features = [example_feature 1 1 False True (Some ''A'')],
      step_progress = [example_step]\<rparr>"

definition example_item :: "string option \<Rightarrow> feature_data" where
  "example_item t =
     \<lparr>fd_type = t, fd_category = Some ''core'', fd_name = Some ''item'',
      fd_description = Some ''an item'', fd_steps = Some [''first step'']\<rparr>"

definition empty_db :: database where
  "empty_db = \<lparr>features = [], step_progress = []\<rparr>"

text \<open>A store whose one item has the largest priority the column holds.\<close>

definition example_db_top :: database where
  "example_db_top =
     \<lparr>features = [example_feature 1 (2 ^ 63 - 1) False False None], step_progress = []\<rparr>"




section \<open>Basic facts about the queries\<close>

lemma first_Some_iff: "first rows = Some r \<longleftrightarrow> (\<exists>rest. rows = r # rest)"
  by (cases rows) (simp_all add: first_def)

lemma first_None_iff: "first rows = None \<longleftrightarrow> rows = []"
  by (cases rows) (simp_all add: first_def)

lemma query_feature_Some:
  assumes "query_feature db i = Some f"
  shows "f \<in> set (features db)" and "f_id f = i"
proof -
  from assms obtain rest where eq: "filter (\<lambda>g. f_id g = i) (features db) = f # rest"
    by (auto simp: query_feature_def first_Some_iff)
  have "f \<in> set (filter (\<lambda>g. f_id g = i) (features db))"
    by (simp add: eq)
  then show "f \<in> set (features db)" and "f_id f = i"
    by simp_all
qed

lemma query_feature_commit:
  assumes "query_feature db i = Some f" and "f_id f' = i"
  shows "query_feature (commit_feature db f') i = Some f'"
proof -
  have "filter (\<lambda>g. f_id g = i) (map (\<lambda>g. if f_id g = i then f' else g) rows)
          = map (\<lambda>_. f') (filter (\<lambda>g. f_id g = i) rows)" for rows
    using assms(2) by (induction rows) simp_all
  moreover from assms(1) obtain rest where "filter (\<lambda>g. f_id g = i) (features db) = f # rest"
    by (auto simp: query_feature_def first_Some_iff)
  ultimately show ?thesis
    using assms(2) by (simp add: query_feature_def commit_feature_def first_def)
qed

section \<open>The largest priority\<close>

lemma max_priority_result_ge:
  assumes "max_priority_result db = Some m" and "g \<in> set (features db)"
  shows "priority g \<le> m"
proof -
  let ?ps = "map priority (features db)"
  from assms(1) obtain rest where eq: "rev (sort ?ps) = m # rest"
    by (auto simp: max_priority_result_def first_Some_iff)
  have "sorted_wrt (\<ge>) (rev (sort ?ps))"
    by (simp add: sorted_wrt_rev)
  with eq have "\<forall>p \<in> set rest. p \<le> m" by simp
  moreover have "priority g \<in> set (rev (sort ?ps))" using assms(2) by simp
  ultimately show ?thesis unfolding eq by auto
qed

lemma max_priority_result_mem:
  assumes "max_priority_result db = Some m"
  shows "m \<in> priority ` set (features db)"
proof -
  let ?ps = "map priority (features db)"
  from assms(1) obtain rest where eq: "rev (sort ?ps) = m # rest"
    by (auto simp: max_priority_result_def first_Some_iff)
  then have "m \<in> set (rev (sort ?ps))" by simp
  then show ?thesis by simp
qed

lemma max_priority_result_nonempty:
  assumes "features db \<noteq> []"
  shows "\<exists>m. max_priority_result db = Some m"
proof -
  have "length (rev (sort (map priority (features db)))) \<noteq> 0" using assms by simp
  then show ?thesis
    by (cases "rev (sort (map priority (features db)))") (simp_all add: max_priority_result_def first_def)
qed

lemma max_priority_result_empty:
  "features db = [] \<Longrightarrow> max_priority_result db = None"
  by (simp add: max_priority_result_def first_def)

lemma max_priority_result_Max:
  assumes "features db \<noteq> []"
  shows "max_priority_result db = Some (Max (priority ` set (features db)))"
proof -
  from assms obtain m where m: "max_priority_result db = Some m"
    using max_priority_result_nonempty by blast
  have "Max (priority ` set (features db)) = m"
  proof (rule Max_eqI)
    show "finite (priority ` set (features db))" by simp
    show "y \<le> m" if "y \<in> priority ` set (features db)" for y
      using that max_priority_result_ge [OF m] by auto
    show "m \<in> priority ` set (features db)" by (rule max_priority_result_mem [OF m])
  qed
  with m show ?thesis by simp
qed

section \<open>Skip\<close>

text \<open>
  Claim C4. For every existing item: \<^verbatim>\<open>skip(id)\<close> on an incomplete item sets its
  priority to a value strictly greater than the current maximum priority in the store
  (the maximum plus one) and clears its claimed flag; \<^verbatim>\<open>skip(id)\<close> on an
  already-completed item returns the conflict error and leaves the store unchanged.
  The new priority has to be one the column can hold: the maximum is below the largest
  64-bit integer.
\<close>

theorem feature_skip_priority:
  assumes "query_feature db i = Some f"
  shows "(passes f \<longrightarrow> feature_skip db i = (Inl CannotSkipPassing, db)) \<and>
         (\<not> passes f \<and> sqlite_integer (Max (priority ` set (features db)) + 1) \<longrightarrow>
            (\<exists>d f'. feature_skip db i = (Inr d, commit_feature db f') \<and>
               query_feature (commit_feature db f') i = Some f' \<and>
               f' = f\<lparr>priority := new_priority d, in_progress := False\<rparr> \<and>
               old_priority d = priority f \<and>
               new_priority d = Max (priority ` set (features db)) + 1 \<and>
               (\<forall>g \<in> set (features db). priority g < new_priority d)))"
proof (intro conjI impI)
  assume "passes f"
  with assms show "feature_skip db i = (Inl CannotSkipPassing, db)"
    by (simp add: feature_skip_def)
next
  assume "\<not> passes f \<and> sqlite_integer (Max (priority ` set (features db)) + 1)"
  then have np: "\<not> passes f"
    and fits: "sqlite_integer (Max (priority ` set (features db)) + 1)" by simp_all
  from assms have mem: "f \<in> set (features db)" and fid: "f_id f = i"
    by (rule query_feature_Some)+
  then have ne: "features db \<noteq> []" by auto
  then obtain m where m: "max_priority_result db = Some m"
    using max_priority_result_nonempty by blast
  with ne have mx: "m = Max (priority ` set (features db))"
    by (simp add: max_priority_result_Max)
  define f' where "f' = f\<lparr>priority := m + 1, in_progress := False\<rparr>"
  define d where "d = \<lparr>skipped_id = f_id f', skipped_name = name f',
                      old_priority = priority f, new_priority = m + 1\<rparr>"
  have run: "feature_skip db i = (Inr d, commit_feature db f')"
    using assms np m fits by (simp add: feature_skip_def f'_def d_def Let_def mx)
  have "f_id f' = i" using fid by (simp add: f'_def)
  with assms have q: "query_feature (commit_feature db f') i = Some f'"
    by (rule query_feature_commit)
  have above: "\<forall>g \<in> set (features db). priority g < new_priority d"
    using max_priority_result_ge [OF m] by (fastforce simp: d_def)
  show "\<exists>d f'. feature_skip db i = (Inr d, commit_feature db f') \<and>
               query_feature (commit_feature db f') i = Some f' \<and>
               f' = f\<lparr>priority := new_priority d, in_progress := False\<rparr> \<and>
               old_priority d = priority f \<and>
               new_priority d = Max (priority ` set (features db)) + 1 \<and>
               (\<forall>g \<in> set (features db). priority g < new_priority d)"
    using run q above mx by (intro exI [of _ d] exI [of _ f']) (simp add: d_def f'_def)
qed

lemma example_db_queries:
  "query_feature example_db 1 = Some (example_feature 1 1 False True (Some ''A''))"
  "query_feature example_db 2 = Some (example_feature 2 2 False False None)"
  "query_feature example_db 3 = Some (example_feature 3 3 True False None)"
  by (simp_all add: query_feature_def example_db_def example_feature_def first_def)

theorem feature_skip_priority_witness:
  "feature_skip example_db 3 = (Inl CannotSkipPassing, example_db) \<and>
   (\<exists>d f'. feature_skip example_db 1 = (Inr d, commit_feature example_db f') \<and>
      query_feature (commit_feature example_db f') 1 = Some f' \<and>
      f' = (example_feature 1 1 False True (Some ''A''))\<lparr>priority := new_priority d, in_progress := False\<rparr> \<and>
      new_priority d = 4)"
proof -
  have p3: "passes (example_feature 3 3 True False None)"
    and np1: "\<not> passes (example_feature 1 1 False True (Some ''A''))"
    by (simp_all add: example_feature_def)
  have mx: "Max (priority ` set (features example_db)) = 3"
    by (simp add: example_db_def example_feature_def)
  have fits: "sqlite_integer (Max (priority ` set (features example_db)) + 1)"
    by (simp add: mx sqlite_integer_def)
  from feature_skip_priority [OF example_db_queries(3)] p3
  have "feature_skip example_db 3 = (Inl CannotSkipPassing, example_db)" by blast
  moreover from feature_skip_priority [OF example_db_queries(1)] np1 fits
  have "\<exists>d f'. feature_skip example_db 1 = (Inr d, commit_feature example_db f') \<and>
      query_feature (commit_feature example_db f') 1 = Some f' \<and>
      f' = (example_feature 1 1 False True (Some ''A''))\<lparr>priority := new_priority d, in_progress := False\<rparr> \<and>
      new_priority d = Max (priority ` set (features example_db)) + 1" by blast
  ultimately show ?thesis unfolding mx by simp
qed

text \<open>
  At the top of the range the commit raises and the store stays as it was.
\<close>

lemma feature_skip_overflow:
  assumes "query_feature db i = Some f" and "\<not> passes f"
    and "\<not> sqlite_integer (Max (priority ` set (features db)) + 1)"
  shows "feature_skip db i = (Inl CommitOverflow, db)"
proof -
  from assms(1) have "f \<in> set (features db)" by (rule query_feature_Some)
  then have "features db \<noteq> []" by auto
  then have "max_priority_result db = Some (Max (priority ` set (features db)))"
    by (rule max_priority_result_Max)
  with assms show ?thesis by (simp add: feature_skip_def Let_def)
qed

lemma feature_skip_overflow_example:
  "feature_skip example_db_top 1 = (Inl CommitOverflow, example_db_top)"
  by (simp add: feature_skip_def query_feature_def first_def max_priority_result_def
      sqlite_integer_def example_db_top_def example_feature_def Let_def)

section \<open>Marking an item in progress\<close>

text \<open>
  Claim C10. For every incomplete item currently claimed by some agent \<open>a\<close>
  (\<^verbatim>\<open>in_progress\<close> true, \<^verbatim>\<open>assigned_agent_id\<close> = \<open>a\<close>),
  \<^verbatim>\<open>feature_mark_in_progress\<close> with an empty agent id succeeds rather than returning
  a conflict: it returns the item with \<^verbatim>\<open>in_progress\<close> true and leaves
  \<^verbatim>\<open>assigned_agent_id\<close> equal to \<open>a\<close>.
\<close>

theorem mark_in_progress_without_agent:
  assumes "query_feature db i = Some f" and "\<not> passes f"
    and "in_progress f" and "assigned_agent_id f = Some a"
  shows "\<exists>f'. feature_mark_in_progress db i [] = (Inr f', commit_feature db f') \<and>
           query_feature (commit_feature db f') i = Some f' \<and>
           in_progress f' \<and> assigned_agent_id f' = Some a \<and> f' = f"
proof -
  have same: "f\<lparr>in_progress := True\<rparr> = f"
    using assms(3) by simp
  have run: "feature_mark_in_progress db i [] = (Inr f, commit_feature db f)"
    using assms(1,2) by (simp add: feature_mark_in_progress_def truthy_def Let_def same)
  have "f_id f = i" using assms(1) by (rule query_feature_Some)
  with assms(1) have "query_feature (commit_feature db f) i = Some f"
    by (rule query_feature_commit)
  with run assms(3,4) show ?thesis by simp
qed

theorem mark_in_progress_without_agent_witness:
  "\<exists>f'. feature_mark_in_progress example_db 1 [] = (Inr f', commit_feature example_db f') \<and>
         in_progress f' \<and> assigned_agent_id f' = Some ''A''"
proof -
  have "\<not> passes (example_feature 1 1 False True (Some ''A''))"
    and "in_progress (example_feature 1 1 False True (Some ''A''))"
    and "assigned_agent_id (example_feature 1 1 False True (Some ''A'')) = Some ''A''"
    by (simp_all add: example_feature_def)
  from mark_in_progress_without_agent [OF example_db_queries(1) this]
  show ?thesis by blast
qed

section \<open>Release\<close>

text \<open>
  Claim C6, as amended. For every existing item, \<^verbatim>\<open>release(id, owner)\<close> with a
  non-empty owner returns the ownership error and leaves the store unchanged when the
  item's owner field holds a non-empty identifier different from that owner. It
  succeeds, clearing the claimed flag and the owner, when no owner is supplied, when the
  item's owner field is null or empty, or when the owner matches.
\<close>

theorem feature_release_ownership:
  assumes "query_feature db i = Some f"
  shows "(assigned_agent_id f = Some holder \<and> holder \<noteq> [] \<and> agent \<noteq> [] \<and> holder \<noteq> agent \<longrightarrow>
            feature_release db i agent = (Inl (AssignedToAgent holder agent), db)) \<and>
         (agent = [] \<or> assigned_agent_id f = None \<or> assigned_agent_id f = Some [] \<or>
            assigned_agent_id f = Some agent \<longrightarrow>
            (\<exists>f'. feature_release db i agent = (Inr f', commit_feature db f') \<and>
               query_feature (commit_feature db f') i = Some f' \<and>
               f' = f\<lparr>in_progress := False, assigned_agent_id := None\<rparr>))"
proof (intro conjI impI)
  assume "assigned_agent_id f = Some holder \<and> holder \<noteq> [] \<and> agent \<noteq> [] \<and> holder \<noteq> agent"
  with assms show "feature_release db i agent = (Inl (AssignedToAgent holder agent), db)"
    by (simp add: feature_release_def truthy_def truthy_opt_def)
next
  assume ok: "agent = [] \<or> assigned_agent_id f = None \<or> assigned_agent_id f = Some [] \<or>
            assigned_agent_id f = Some agent"
  define f' where "f' = f\<lparr>in_progress := False, assigned_agent_id := None\<rparr>"
  from ok have "\<not> (truthy agent \<and> truthy_opt (assigned_agent_id f) \<and> assigned_agent_id f \<noteq> Some agent)"
    by (auto simp: truthy_def truthy_opt_def)
  with assms have run: "feature_release db i agent = (Inr f', commit_feature db f')"
    by (simp add: feature_release_def f'_def Let_def)
  have "f_id f = i" using assms by (rule query_feature_Some)
  then have "f_id f' = i" by (simp add: f'_def)
  with assms have "query_feature (commit_feature db f') i = Some f'"
    by (rule query_feature_commit)
  with run show "\<exists>f'. feature_release db i agent = (Inr f', commit_feature db f') \<and>
               query_feature (commit_feature db f') i = Some f' \<and>
               f' = f\<lparr>in_progress := False, assigned_agent_id := None\<rparr>"
    by (simp add: f'_def)
qed

theorem feature_release_ownership_witness:
  "feature_release example_db 1 ''B'' = (Inl (AssignedToAgent ''A'' ''B''), example_db) \<and>
   (\<exists>f'. feature_release example_db 1 [] = (Inr f', commit_feature example_db f') \<and>
      f' = (example_feature 1 1 False True (Some ''A''))\<lparr>in_progress := False, assigned_agent_id := None\<rparr>)"
proof -
  have "assigned_agent_id (example_feature 1 1 False True (Some ''A'')) = Some ''A''"
    by (simp add: example_feature_def)
  with feature_release_ownership [OF example_db_queries(1), of "''A''" "''B''"]
  have "feature_release example_db 1 ''B'' = (Inl (AssignedToAgent ''A'' ''B''), example_db)"
    by simp
  moreover from feature_release_ownership [OF example_db_queries(1), of "''A''" "[]"]
  have "\<exists>f'. feature_release example_db 1 [] = (Inr f', commit_feature example_db f') \<and>
      f' = (example_feature 1 1 False True (Some ''A''))\<lparr>in_progress := False, assigned_agent_id := None\<rparr>"
    by simp
  ultimately show ?thesis by blast
qed

text \<open>
  The claim as first stated fails: item 4 is claimed and its owner field does not hold
  agent B, yet \<^verbatim>\<open>release(4, "B")\<close> succeeds and clears the claimed flag.
\<close>

theorem feature_release_unheld_counterexample:
  "query_feature example_db_anonymous 4 = Some (example_feature 4 0 False True None) \<and>
   assigned_agent_id (example_feature 4 0 False True None) \<noteq> Some ''B'' \<and>
   in_progress (example_feature 4 0 False True None) \<and>
   fst (feature_release example_db_anonymous 4 ''B'') = Inr (example_feature 4 0 False False None) \<and>
   query_feature (snd (feature_release example_db_anonymous 4 ''B'')) 4
     = Some (example_feature 4 0 False False None)"
  by (simp add: feature_release_def query_feature_def example_db_anonymous_def
      example_feature_def first_def truthy_def truthy_opt_def commit_feature_def Let_def)

section \<open>Step progress\<close>

lemma query_step_Some:
  assumes "query_step db i k = Some s"
  shows "s \<in> set (step_progress db)" and "feature_id s = i" and "step_index s = k"
proof -
  from assms obtain rest
    where eq: "filter (\<lambda>r. feature_id r = i \<and> step_index r = k) (step_progress db) = s # rest"
    by (auto simp: query_step_def first_Some_iff)
  have "s \<in> set (filter (\<lambda>r. feature_id r = i \<and> step_index r = k) (step_progress db))"
    by (simp add: eq)
  then show "s \<in> set (step_progress db)" and "feature_id s = i" and "step_index s = k"
    by simp_all
qed

lemma query_step_commit:
  assumes "query_step db i k = Some s" and "sp_id s' = sp_id s"
    and "feature_id s' = i" and "step_index s' = k"
  shows "query_step (commit_step db s') i k = Some s'"
proof -
  have "first (filter (\<lambda>r. feature_id r = i \<and> step_index r = k) rows) = Some s \<Longrightarrow>
        first (filter (\<lambda>r. feature_id r = i \<and> step_index r = k)
                 (map (\<lambda>r. if sp_id r = sp_id s' then s' else r) rows)) = Some s'" for rows
  proof (induction rows)
    case Nil
    then show ?case by (simp add: first_def)
  next
    case (Cons r rows)
    show ?case
    proof (cases "feature_id r = i \<and> step_index r = k")
      case True
      with Cons.prems have "r = s" by (simp add: first_def)
      with assms(2-4) show ?thesis by (simp add: first_def)
    next
      case False
      with Cons.prems have "first (filter (\<lambda>r. feature_id r = i \<and> step_index r = k) rows) = Some s"
        by simp
      from Cons.IH [OF this] False assms(3,4) show ?thesis by (auto simp: first_def)
    qed
  qed
  with assms(1) show ?thesis by (simp add: query_step_def commit_step_def)
qed

text \<open>
  Claim C5, as amended. For every item and step index with an existing StepRecord,
  \<^verbatim>\<open>markStarted(itemId, stepIndex)\<close> sets \<^verbatim>\<open>startedAt\<close> to the current time,
  whether or not it was already set: the last call wins.
\<close>

theorem step_mark_started_overwrites:
  assumes "query_step db i k = Some s"
  shows "feature_step_mark_started utcnow db i k
           = (Inr (s\<lparr>started_at := Some utcnow\<rparr>), commit_step db (s\<lparr>started_at := Some utcnow\<rparr>)) \<and>
         query_step (snd (feature_step_mark_started utcnow db i k)) i k
           = Some (s\<lparr>started_at := Some utcnow\<rparr>)"
proof -
  have run: "feature_step_mark_started utcnow db i k
           = (Inr (s\<lparr>started_at := Some utcnow\<rparr>), commit_step db (s\<lparr>started_at := Some utcnow\<rparr>))"
    using assms by (simp add: feature_step_mark_started_def Let_def)
  have "feature_id s = i" and "step_index s = k"
    using assms by (rule query_step_Some)+
  then have "query_step (commit_step db (s\<lparr>started_at := Some utcnow\<rparr>)) i k
      = Some (s\<lparr>started_at := Some utcnow\<rparr>)"
    by (intro query_step_commit [OF assms]) simp_all
  with run show ?thesis by simp
qed

lemma example_db_steps_query: "query_step example_db_steps 1 0 = Some example_step"
  by (simp add: query_step_def example_db_steps_def example_step_def first_def)

theorem step_mark_started_overwrites_witness:
  "fst (feature_step_mark_started 20 example_db_steps 1 0)
     = Inr (example_step\<lparr>started_at := Some 20\<rparr>) \<and>
   query_step (snd (feature_step_mark_started 20 example_db_steps 1 0)) 1 0
     = Some (example_step\<lparr>started_at := Some 20\<rparr>)"
proof -
  note run = step_mark_started_overwrites [OF example_db_steps_query, of 20]
  from run [THEN conjunct1]
  have "fst (feature_step_mark_started 20 example_db_steps 1 0)
     = Inr (example_step\<lparr>started_at := Some 20\<rparr>)"
    by simp
  with run [THEN conjunct2] show ?thesis by (rule conjI [rotated])
qed

text \<open>
  The claim as first stated fails: a step marked started at time 10 and marked started
  again at time 20 has \<^verbatim>\<open>startedAt\<close> = 20.
\<close>

theorem step_mark_started_counterexample:
  "query_step (snd (feature_step_mark_started 10 example_db_steps 1 0)) 1 0
     = Some (example_step\<lparr>started_at := Some 10\<rparr>) \<and>
   query_step (snd (feature_step_mark_started 20
                     (snd (feature_step_mark_started 10 example_db_steps 1 0)) 1 0)) 1 0
     = Some (example_step\<lparr>started_at := Some 20\<rparr>)"
  by (simp add: feature_step_mark_started_def query_step_def example_db_steps_def
      example_step_def first_def commit_step_def Let_def)

section \<open>The owner invariant\<close>

text \<open>
  Claiming, marking, releasing and completing keep the invariant that a non-null owner
  implies the claimed flag.
\<close>

lemma commit_feature_keeps_invariant:
  assumes "owner_implies_claimed db" and "assigned_agent_id f' = None \<or> in_progress f'"
  shows "owner_implies_claimed (commit_feature db f')"
  using assms by (auto simp: owner_implies_claimed_def commit_feature_def list_all_iff)

lemma feature_claim_next_keeps_invariant:
  "owner_implies_claimed db \<Longrightarrow> owner_implies_claimed (snd (feature_claim_next db a))"
  by (auto simp: feature_claim_next_def Let_def commit_feature_keeps_invariant split: option.splits)

lemma feature_get_next_keeps_invariant:
  "owner_implies_claimed db \<Longrightarrow> owner_implies_claimed (snd (feature_get_next e db a))"
  by (auto simp: feature_get_next_def Let_def commit_feature_keeps_invariant split: option.splits)

lemma feature_mark_in_progress_keeps_invariant:
  "owner_implies_claimed db \<Longrightarrow> owner_implies_claimed (snd (feature_mark_in_progress db i a))"
  by (auto simp: feature_mark_in_progress_def Let_def commit_feature_keeps_invariant
      split: option.splits)

lemma feature_release_keeps_invariant:
  "owner_implies_claimed db \<Longrightarrow> owner_implies_claimed (snd (feature_release db i a))"
  by (auto simp: feature_release_def Let_def commit_feature_keeps_invariant split: option.splits)

lemma feature_clear_in_progress_keeps_invariant:
  "owner_implies_claimed db \<Longrightarrow> owner_implies_claimed (snd (feature_clear_in_progress db i))"
  by (auto simp: feature_clear_in_progress_def Let_def commit_feature_keeps_invariant
      split: option.splits)

lemma feature_mark_passing_keeps_invariant:
  "owner_implies_claimed db \<Longrightarrow> owner_implies_claimed (snd (feature_mark_passing db i))"
  by (auto simp: feature_mark_passing_def Let_def commit_feature_keeps_invariant
      split: option.splits)

text \<open>
  Claim C3. In every reachable store a non-null owner implies the claimed flag, and
  every operation of the claim protocol (claimNext, markClaimed, release, complete, skip)
  keeps it so. \<^verbatim>\<open>feature_skip\<close> does not: on item 1, claimed by agent A, it
  clears \<^verbatim>\<open>in_progress\<close> and leaves \<^verbatim>\<open>assigned_agent_id\<close> = A, where
  \<^verbatim>\<open>feature_release\<close>, \<^verbatim>\<open>feature_clear_in_progress\<close> and
  \<^verbatim>\<open>feature_mark_passing\<close> clear both.
\<close>

theorem feature_skip_breaks_invariant:
  "owner_implies_claimed example_db \<and>
   \<not> owner_implies_claimed (snd (feature_skip example_db 1)) \<and>
   query_feature (snd (feature_skip example_db 1)) 1
     = Some (example_feature 1 4 False False (Some ''A''))"
  by (simp add: owner_implies_claimed_def feature_skip_def query_feature_def example_db_def
      example_feature_def first_def max_priority_result_def commit_feature_def Let_def
      sqlite_integer_def)

section \<open>Selecting the next item\<close>

text \<open>
  The first row of the ordered query is the item the spec's \<open>lowest\<close> picks, and
  that item is least in priority, then id.
\<close>

lemma first_insort_key:
  "first (insort_key k x ys) =
     (case first ys of None \<Rightarrow> Some x | Some y \<Rightarrow> if k x \<le> k y then Some x else Some y)"
  by (cases ys) (simp_all add: first_def)

lemma first_order_by_lowest: "first (order_by_priority_id rows) = lowest rows"
proof (induction rows)
  case Nil
  show ?case by (simp add: order_by_priority_id_def first_def)
next
  case (Cons f rows)
  from Cons show ?case
    by (auto simp: order_by_priority_id_def first_insort_key split: option.splits)
qed

lemma lowest_None_iff: "lowest rows = None \<longleftrightarrow> rows = []"
  by (induction rows) (simp_all split: option.splits)

lemma lowest_least:
  assumes "lowest rows = Some f"
  shows "f \<in> set rows \<and>
         (\<forall>g \<in> set rows. priority f < priority g \<or> (priority f = priority g \<and> f_id f \<le> f_id g))"
  using assms
proof (induction rows arbitrary: f)
  case Nil
  then show ?case by simp
next
  case (Cons r rows)
  show ?case
  proof (cases "lowest rows")
    case None
    then have "rows = []" by (simp add: lowest_None_iff)
    with Cons.prems show ?thesis by simp
  next
    case (Some g)
    note ih = Cons.IH [OF Some]
    show ?thesis
    proof (cases "priority r < priority g \<or> (priority r = priority g \<and> f_id r \<le> f_id g)")
      case True
      with Some Cons.prems have "f = r" by simp
      with True ih show ?thesis by fastforce
    next
      case False
      with Some Cons.prems have "f = g" by simp
      with False ih show ?thesis by fastforce
    qed
  qed
qed

text \<open>
  Claim C2, as amended. For every store state and every owner, \<^verbatim>\<open>claimNext(owner)\<close>
  selects the lowest-priority (tie-break: lowest id) incomplete item that is either
  unclaimed with a null owner or owned by the caller, returns it with the claimed flag
  set and the owner set to the caller, and returns NotAvailable exactly when there is
  no such item. Whenever no incomplete claimed item has a null owner, this is the item
  \<^verbatim>\<open>nextAvailable(owner)\<close> specifies.
\<close>

theorem feature_claim_next_selection:
  "feature_claim_next db owner =
     (case lowest (filter (claimable owner) (features db)) of
        None \<Rightarrow> (Inl NoFeaturesToClaim, db)
      | Some f \<Rightarrow> (Inr (f\<lparr>in_progress := True, assigned_agent_id := Some owner\<rparr>),
                   commit_feature db (f\<lparr>in_progress := True, assigned_agent_id := Some owner\<rparr>))) \<and>
   ((\<forall>g \<in> set (features db). passes g = False \<and> in_progress g \<longrightarrow> assigned_agent_id g \<noteq> None) \<longrightarrow>
     feature_claim_next db owner =
       (case nextAvailable db owner of
          None \<Rightarrow> (Inl NoFeaturesToClaim, db)
        | Some f \<Rightarrow> (Inr (f\<lparr>in_progress := True, assigned_agent_id := Some owner\<rparr>),
                     commit_feature db (f\<lparr>in_progress := True, assigned_agent_id := Some owner\<rparr>))))"
proof (intro conjI impI)
  show code: "feature_claim_next db owner =
     (case lowest (filter (claimable owner) (features db)) of
        None \<Rightarrow> (Inl NoFeaturesToClaim, db)
      | Some f \<Rightarrow> (Inr (f\<lparr>in_progress := True, assigned_agent_id := Some owner\<rparr>),
                   commit_feature db (f\<lparr>in_progress := True, assigned_agent_id := Some owner\<rparr>)))"
    by (simp add: feature_claim_next_def first_order_by_lowest Let_def split: option.splits)
  assume inv: "\<forall>g \<in> set (features db). passes g = False \<and> in_progress g \<longrightarrow> assigned_agent_id g \<noteq> None"
  have "filter (claimable owner) (features db) = filter (available_for owner) (features db)"
  proof (rule filter_cong [OF refl])
    fix g assume "g \<in> set (features db)"
    with inv show "claimable owner g = available_for owner g"
      by (auto simp: claimable_def available_for_def)
  qed
  with code show "feature_claim_next db owner =
       (case nextAvailable db owner of
          None \<Rightarrow> (Inl NoFeaturesToClaim, db)
        | Some f \<Rightarrow> (Inr (f\<lparr>in_progress := True, assigned_agent_id := Some owner\<rparr>),
                     commit_feature db (f\<lparr>in_progress := True, assigned_agent_id := Some owner\<rparr>)))"
    by (simp add: nextAvailable_def)
qed

theorem feature_claim_next_selection_witness:
  "nextAvailable example_db ''B'' = Some (example_feature 2 2 False False None) \<and>
   fst (feature_claim_next example_db ''B'') = Inr (example_feature 2 2 False True (Some ''B''))"
proof -
  have inv: "\<forall>g \<in> set (features example_db). passes g = False \<and> in_progress g \<longrightarrow> assigned_agent_id g \<noteq> None"
    by (simp add: example_db_def example_feature_def)
  have nxt: "nextAvailable example_db ''B'' = Some (example_feature 2 2 False False None)"
    by (simp add: nextAvailable_def available_for_def example_db_def example_feature_def)
  from feature_claim_next_selection [of example_db "''B''"] inv
  have "feature_claim_next example_db ''B'' =
       (case nextAvailable example_db ''B'' of
          None \<Rightarrow> (Inl NoFeaturesToClaim, example_db)
        | Some f \<Rightarrow> (Inr (f\<lparr>in_progress := True, assigned_agent_id := Some ''B''\<rparr>),
                     commit_feature example_db (f\<lparr>in_progress := True, assigned_agent_id := Some ''B''\<rparr>)))"
    by blast
  with nxt show ?thesis by (simp add: example_feature_def)
qed

text \<open>
  The store of the second example is reached by marking item 4 in progress without an
  agent id.
\<close>

lemma example_db_anonymous_reached:
  "snd (feature_mark_in_progress
          \<lparr>features = [example_feature 4 0 False False None, example_feature 2 2 False False None],
           step_progress = []\<rparr> 4 [])
     = example_db_anonymous"
  by (simp add: feature_mark_in_progress_def query_feature_def first_def truthy_def
      truthy_opt_def commit_feature_def example_db_anonymous_def example_feature_def Let_def)

text \<open>
  The claim as first stated fails: item 4 is claimed with a null owner, so
  \<^verbatim>\<open>nextAvailable("B")\<close> specifies item 4 while \<^verbatim>\<open>claimNext("B")\<close> claims
  item 2.
\<close>

theorem feature_claim_next_counterexample:
  "nextAvailable example_db_anonymous ''B'' = Some (example_feature 4 0 False True None) \<and>
   fst (feature_claim_next example_db_anonymous ''B'') = Inr (example_feature 2 2 False True (Some ''B''))"
  by (simp add: nextAvailable_def available_for_def feature_claim_next_def claimable_def
      order_by_priority_id_def first_def example_db_anonymous_def example_feature_def Let_def)

text \<open>
  \<^verbatim>\<open>feature_get_next\<close> with an agent id selects the item of
  \<^verbatim>\<open>nextAvailable\<close>, and claims it when it is not in progress.
\<close>

lemma feature_get_next_selection:
  assumes "agent \<noteq> []"
  shows "fst (feature_get_next env db agent) =
     (case nextAvailable db agent of
        None \<Rightarrow> Inl NoMoreWork
      | Some f \<Rightarrow> Inr (if in_progress f then f
                       else f\<lparr>in_progress := True, assigned_agent_id := Some agent\<rparr>))"
proof -
  have "filter (\<lambda>f. assigned_agent_id f = None \<or> assigned_agent_id f = Some agent)
          (filter (\<lambda>f. passes f = False) (features db))
        = filter (available_for agent) (features db)"
    by (auto simp: available_for_def intro: filter_cong)
  with assms show ?thesis
    by (simp add: feature_get_next_def truthy_def first_order_by_lowest nextAvailable_def
        Let_def split: option.splits)
qed

section \<open>Creating a batch\<close>

text \<open>
  The loop over a batch whose elements all have the required fields adds one row per
  element; with an element that lacks one it returns the error, and nothing is stored.
\<close>

lemma create_rows_ok:
  assumes "\<forall>fd \<in> set batch. has_required_fields fd"
  shows "\<exists>rows. create_rows sp new_id lbl i batch = Inr rows \<and> length rows = length batch \<and>
           (\<forall>j < length batch.
              priority (rows ! j)
                = sp + int (i + j) - (if fd_type (batch ! j) = Some ''bug'' then 500 else 0) \<and>
              f_id (rows ! j) = new_id (i + j) \<and>
              steps (rows ! j) = the (fd_steps (batch ! j)) \<and>
              label (rows ! j) = lbl \<and>
              \<not> passes (rows ! j) \<and> \<not> in_progress (rows ! j) \<and>
              assigned_agent_id (rows ! j) = None)"
  using assms
proof (induction batch arbitrary: i)
  case Nil
  show ?case by simp
next
  case (Cons fd batch)
  from Cons.prems have req: "has_required_fields fd"
    and rest: "\<forall>fd \<in> set batch. has_required_fields fd" by simp_all
  from Cons.IH [OF rest, of "Suc i"] obtain rows
    where run: "create_rows sp new_id lbl (Suc i) batch = Inr rows"
      and len: "length rows = length batch"
      and each: "\<forall>j < length batch.
              priority (rows ! j)
                = sp + int (Suc i + j) - (if fd_type (batch ! j) = Some ''bug'' then 500 else 0) \<and>
              f_id (rows ! j) = new_id (Suc i + j) \<and>
              steps (rows ! j) = the (fd_steps (batch ! j)) \<and>
              label (rows ! j) = lbl \<and>
              \<not> passes (rows ! j) \<and> \<not> in_progress (rows ! j) \<and>
              assigned_agent_id (rows ! j) = None"
    by blast
  define r where "r = \<lparr>f_id = new_id i,
      priority = (if (case fd_type fd of None \<Rightarrow> ''feature'' | Some t \<Rightarrow> t) = ''bug''
                  then sp + int i - 500 else sp + int i),
      f_type = (case fd_type fd of None \<Rightarrow> ''feature'' | Some t \<Rightarrow> t),
      category = the (fd_category fd), name = the (fd_name fd),
      description = the (fd_description fd), steps = the (fd_steps fd),
      passes = False, in_progress = False, label = lbl, assigned_agent_id = None\<rparr>"
  have step: "create_rows sp new_id lbl i (fd # batch) = Inr (r # rows)"
    using req run by (simp add: Let_def r_def)
  have r_prio: "priority r = sp + int i - (if fd_type fd = Some ''bug'' then 500 else 0)"
    by (cases "fd_type fd") (simp_all add: r_def)
  have r_rest: "f_id r = new_id i" "steps r = the (fd_steps fd)" "label r = lbl"
    "\<not> passes r" "\<not> in_progress r" "assigned_agent_id r = None"
    by (simp_all add: r_def)
  have "\<forall>j < length (fd # batch).
              priority ((r # rows) ! j)
                = sp + int (i + j) - (if fd_type ((fd # batch) ! j) = Some ''bug'' then 500 else 0) \<and>
              f_id ((r # rows) ! j) = new_id (i + j) \<and>
              steps ((r # rows) ! j) = the (fd_steps ((fd # batch) ! j)) \<and>
              label ((r # rows) ! j) = lbl \<and>
              \<not> passes ((r # rows) ! j) \<and> \<not> in_progress ((r # rows) ! j) \<and>
              assigned_agent_id ((r # rows) ! j) = None"
  proof (intro allI impI)
    fix j assume "j < length (fd # batch)"
    then show "priority ((r # rows) ! j)
                = sp + int (i + j) - (if fd_type ((fd # batch) ! j) = Some ''bug'' then 500 else 0) \<and>
              f_id ((r # rows) ! j) = new_id (i + j) \<and>
              steps ((r # rows) ! j) = the (fd_steps ((fd # batch) ! j)) \<and>
              label ((r # rows) ! j) = lbl \<and>
              \<not> passes ((r # rows) ! j) \<and> \<not> in_progress ((r # rows) ! j) \<and>
              assigned_agent_id ((r # rows) ! j) = None"
    proof (cases j)
      case 0
      with r_prio r_rest show ?thesis by simp
    next
      case (Suc k)
      with \<open>j < length (fd # batch)\<close> have "k < length batch" by simp
      with each Suc show ?thesis by simp
    qed
  qed
  with step len show ?case by simp
qed

lemma create_rows_missing:
  assumes "\<not> (\<forall>fd \<in> set batch. has_required_fields fd)"
  shows "\<exists>k. create_rows sp new_id lbl i batch = Inl (MissingRequiredFields k)"
  using assms
proof (induction batch arbitrary: i)
  case Nil
  then show ?case by simp
next
  case (Cons fd batch)
  show ?case
  proof (cases "has_required_fields fd")
    case False
    then show ?thesis by simp
  next
    case True
    with Cons.prems have "\<not> (\<forall>fd \<in> set batch. has_required_fields fd)" by simp
    from Cons.IH [OF this, of "Suc i"] True show ?thesis by (auto simp: Let_def)
  qed
qed

text \<open>
  Claim C7, as amended. For every batch whose items all carry a category, a name, a
  description and steps, and whose computed priorities are all 64-bit integers,
  \<^verbatim>\<open>create(batch, label)\<close> gives the items sequential priorities starting at
  (max existing priority)+1 (at 1 in an empty store) in batch order, subtracts the fixed
  boost of 500 from the computed priority of each item of type bug, and stores the
  declared steps on the item itself; it persists no StepRecord: the step table is as it
  was.
\<close>

theorem feature_create_bulk_priorities:
  assumes "\<forall>fd \<in> set batch. has_required_fields fd"
    and "\<forall>j < length batch.
           sqlite_integer
             ((if features db = [] then 1 else Max (priority ` set (features db)) + 1) + int j
                - (if fd_type (batch ! j) = Some ''bug'' then 500 else 0))"
  shows "\<exists>rows. feature_create_bulk new_id db batch lbl
                  = (Inr (length batch, lbl), db\<lparr>features := features db @ rows\<rparr>) \<and>
           length rows = length batch \<and>
           (\<forall>j < length batch.
              priority (rows ! j)
                = (if features db = [] then 1 else Max (priority ` set (features db)) + 1) + int j
                    - (if fd_type (batch ! j) = Some ''bug'' then 500 else 0) \<and>
              steps (rows ! j) = the (fd_steps (batch ! j)) \<and>
              label (rows ! j) = lbl \<and>
              \<not> passes (rows ! j) \<and> \<not> in_progress (rows ! j) \<and>
              assigned_agent_id (rows ! j) = None) \<and>
           step_progress (snd (feature_create_bulk new_id db batch lbl)) = step_progress db"
proof -
  define sp where "sp = (case max_priority_result db of Some m \<Rightarrow> m + 1 | None \<Rightarrow> 1)"
  have sp: "sp = (if features db = [] then 1 else Max (priority ` set (features db)) + 1)"
    by (simp add: sp_def max_priority_result_empty max_priority_result_Max)
  from create_rows_ok [OF assms(1), of sp new_id lbl 0] obtain rows
    where run: "create_rows sp new_id lbl 0 batch = Inr rows"
      and len: "length rows = length batch"
      and each: "\<forall>j < length batch.
              priority (rows ! j)
                = sp + int (0 + j) - (if fd_type (batch ! j) = Some ''bug'' then 500 else 0) \<and>
              f_id (rows ! j) = new_id (0 + j) \<and>
              steps (rows ! j) = the (fd_steps (batch ! j)) \<and>
              label (rows ! j) = lbl \<and>
              \<not> passes (rows ! j) \<and> \<not> in_progress (rows ! j) \<and>
              assigned_agent_id (rows ! j) = None"
    by blast
  have "\<forall>j < length rows. sqlite_integer (priority (rows ! j))"
    using assms(2) each len by (simp add: sp)
  then have fits: "list_all (\<lambda>r. sqlite_integer (priority r)) rows"
    by (simp add: list_all_length)
  have res: "feature_create_bulk new_id db batch lbl
                  = (Inr (length batch, lbl), db\<lparr>features := features db @ rows\<rparr>)"
    using run len fits by (simp add: feature_create_bulk_def sp_def [symmetric])
  show ?thesis
  proof (intro exI [of _ rows] conjI)
    show "feature_create_bulk new_id db batch lbl
                  = (Inr (length batch, lbl), db\<lparr>features := features db @ rows\<rparr>)"
      by (rule res)
    show "length rows = length batch" by (rule len)
    show "\<forall>j < length batch.
              priority (rows ! j)
                = (if features db = [] then 1 else Max (priority ` set (features db)) + 1) + int j
                    - (if fd_type (batch ! j) = Some ''bug'' then 500 else 0) \<and>
              steps (rows ! j) = the (fd_steps (batch ! j)) \<and>
              label (rows ! j) = lbl \<and>
              \<not> passes (rows ! j) \<and> \<not> in_progress (rows ! j) \<and>
              assigned_agent_id (rows ! j) = None"
      using each by (simp add: sp [symmetric])
    show "step_progress (snd (feature_create_bulk new_id db batch lbl)) = step_progress db"
      by (simp add: res)
  qed
qed

theorem feature_create_bulk_priorities_witness:
  "\<exists>rows. feature_create_bulk (\<lambda>i. 4 + int i) example_db
              [example_item None, example_item (Some ''bug'')] (Some ''wave'')
            = (Inr (2, Some ''wave''), example_db\<lparr>features := features example_db @ rows\<rparr>) \<and>
          map priority rows = [4, - 495]"
proof -
  have req: "\<forall>fd \<in> set [example_item None, example_item (Some ''bug'')]. has_required_fields fd"
    by (simp add: example_item_def has_required_fields_def)
  have mx: "Max (priority ` set (features example_db)) = 3"
    by (simp add: example_db_def example_feature_def)
  have ne: "features example_db \<noteq> []" by (simp add: example_db_def)
  have fits: "\<forall>j < length [example_item None, example_item (Some ''bug'')].
           sqlite_integer
             ((if features example_db = [] then 1
               else Max (priority ` set (features example_db)) + 1) + int j
                - (if fd_type ([example_item None, example_item (Some ''bug'')] ! j) = Some ''bug''
                   then 500 else 0))"
    by (simp add: mx ne sqlite_integer_def example_item_def less_Suc_eq)
  from feature_create_bulk_priorities [OF req fits, of "\<lambda>i. 4 + int i" "Some ''wave''"] obtain rows
    where run: "feature_create_bulk (\<lambda>i. 4 + int i) example_db
              [example_item None, example_item (Some ''bug'')] (Some ''wave'')
            = (Inr (length [example_item None, example_item (Some ''bug'')], Some ''wave''),
               example_db\<lparr>features := features example_db @ rows\<rparr>)"
      and len: "length rows = length [example_item None, example_item (Some ''bug'')]"
      and each: "\<forall>j < length [example_item None, example_item (Some ''bug'')].
              priority (rows ! j)
                = (if features example_db = [] then 1 else Max (priority ` set (features example_db)) + 1) + int j
                    - (if fd_type ([example_item None, example_item (Some ''bug'')] ! j) = Some ''bug'' then 500 else 0)"
    by blast
  from each have "priority (rows ! 0) = 4" and "priority (rows ! 1) = - 495"
    by (simp_all add: mx ne example_item_def)
  moreover from len obtain a b where "rows = [a, b]"
    by (cases rows; cases "tl rows") auto
  ultimately have "map priority rows = [4, - 495]" by simp
  with run show ?thesis by auto
qed

text \<open>
  The claim as first stated fails: after a batch of one item with one declared step is
  created in an empty store, the store has the item and no StepRecord.
\<close>

theorem feature_create_bulk_counterexample:
  "fst (feature_create_bulk (\<lambda>i. 1 + int i) empty_db [example_item None] None) = Inr (1, None) \<and>
   map steps (features (snd (feature_create_bulk (\<lambda>i. 1 + int i) empty_db [example_item None] None)))
     = [[''first step'']] \<and>
   step_progress (snd (feature_create_bulk (\<lambda>i. 1 + int i) empty_db [example_item None] None)) = []"
  by (simp add: feature_create_bulk_def empty_db_def example_item_def has_required_fields_def
      max_priority_result_def first_def Let_def sqlite_integer_def)

text \<open>
  At the top of the range the commit raises, the error is returned and nothing is
  stored.
\<close>

lemma feature_create_bulk_overflow_example:
  "feature_create_bulk (\<lambda>i. 2 + int i) example_db_top [example_item None] None
     = (Inl CommitOverflow, example_db_top)"
  by (simp add: feature_create_bulk_def example_db_top_def example_feature_def example_item_def
      has_required_fields_def max_priority_result_def first_def Let_def sqlite_integer_def)

section \<open>Framing and stripping\<close>





section \<open>Round trip of the line protocol\<close>



section \<open>Malformed lines\<close>






end
